theory Spec2Isabelle
  imports Complex_Main "HOL-Library.AList"
begin

section \<open>The search bar of src/components/SearchBar.tsx\<close>

subsection \<open>Data\<close>

text \<open>
  Modelled from the spec: the type \<open>PokemonName\<close> of the catalog records is declared
  outside the source file (an ambient type); the spec gives a record an identifier and a
  name. The source compares \<open>pokemon_species_id\<close> with \<open>===\<close> against the numbers of
  \<open>PokemonIDs\<close> and calls \<open>toString()\<close> on it, so the identifier is a Number. It is
  an integer Number here, and a safe one (\<open>Number.isSafeInteger\<close>): of magnitude below
  \<open>2 ^ 53\<close>. Each of these integers is a Number of its own, and \<open>toString()\<close> prints
  its decimal digits; larger Numbers, which print rounded or in exponent form, are no
  values of the type.
\<close>

typedef SafeInteger = "{i :: int. \<bar>i\<bar> < 2 ^ 53}"
  morphisms int_of Safe
  by (rule exI [of _ 0]) simp

record PokemonName =
  pokemon_species_id :: SafeInteger
  name :: string

text \<open>
  \<open>SearchBarProps\<close>. The two callbacks are optional; all the widget does with them is
  call them (\<open>onChange?.(v)\<close>), so a callback is the flag "was supplied", and a call is an
  entry of the log of notifications that a handler returns. The prop \<open>value\<close> is named
  \<open>value_prop\<close>.
\<close>

record SearchBarProps =
  onChange :: bool
  value_prop :: "string option"
  onInputChange :: bool
  inputValue :: "string option"

datatype Notification = OnChange string | OnInputChange string

text \<open>The three \<open>useState\<close> cells of the component.\<close>

record SelectionState =
  search :: string
  selectedKey :: string
  localItems :: "PokemonName list"

text \<open>\<open>React.Key\<close>: a string or a number (a safe integer here).\<close>

datatype Key = KeyString string | KeyNumber SafeInteger

subsection \<open>JavaScript primitives the handlers use\<close>

text \<open>\<open>f?.(v)\<close>: the call happens when \<open>f\<close> was supplied.\<close>

definition optional_call :: "bool \<Rightarrow> Notification \<Rightarrow> Notification list" where
  "optional_call supplied ev = (if supplied then [ev] else [])"

text \<open>\<open>v || ""\<close> for \<open>v: string | undefined\<close>: the empty string is falsy as well.\<close>

definition or_empty :: "string option \<Rightarrow> string" where
  "or_empty v = (case v of None \<Rightarrow> [] | Some s \<Rightarrow> (if s \<noteq> [] then s else []))"

text \<open>Truthiness of a \<open>React.Key | null\<close>: null, the empty string and 0 are falsy.\<close>

fun truthy :: "Key option \<Rightarrow> bool" where
  "truthy None = False"
| "truthy (Some (KeyString s)) = (s \<noteq> [])"
| "truthy (Some (KeyNumber n)) = (int_of n \<noteq> 0)"

text \<open>\<open>Number.prototype.toString\<close> on a safe integer: its decimal digits, with a sign.\<close>

definition digit_char :: "nat \<Rightarrow> char" where
  "digit_char d = ''0123456789'' ! d"

fun digits :: "nat \<Rightarrow> string" where
  "digits n = (if n < 10 then [digit_char n] else digits (n div 10) @ [digit_char (n mod 10)])"

declare digits.simps [simp del]

definition number_toString :: "SafeInteger \<Rightarrow> string" where
  "number_toString n =
     (if int_of n < 0 then CHR ''-'' # digits (nat (- int_of n)) else digits (nat (int_of n)))"

fun key_toString :: "Key \<Rightarrow> string" where
  "key_toString (KeyString s) = s"
| "key_toString (KeyNumber n) = number_toString n"

subsection \<open>State, effects and handlers\<close>

text \<open>The initial values of the \<open>useState\<close> cells.\<close>

definition initialState :: "SearchBarProps \<Rightarrow> SelectionState" where
  "initialState props =
     \<lparr>search = or_empty (inputValue props),
      selectedKey = or_empty (value_prop props),
      localItems = []\<rparr>"

text \<open>The imperative handle \<open>resetSearchBar\<close>.\<close>

definition resetSearchBar :: "SelectionState \<Rightarrow> SelectionState \<times> Notification list" where
  "resetSearchBar st = (st\<lparr>search := [], selectedKey := []\<rparr>, [])"

text \<open>
  The bodies of the three \<open>useEffect\<close>s that copy props and fetched data into the state.
  \<open>data\<close> is what the hook \<open>usePokemonName(generationIDs, search)\<close> returned in this
  render (undefined is \<open>None\<close>).
\<close>

definition effect_value :: "SearchBarProps \<Rightarrow> SelectionState \<Rightarrow> SelectionState" where
  "effect_value props st = st\<lparr>selectedKey := or_empty (value_prop props)\<rparr>"

definition effect_inputValue :: "SearchBarProps \<Rightarrow> SelectionState \<Rightarrow> SelectionState" where
  "effect_inputValue props st = st\<lparr>search := or_empty (inputValue props)\<rparr>"

definition effect_data :: "PokemonName list option \<Rightarrow> SelectionState \<Rightarrow> SelectionState" where
  "effect_data data st = (case data of Some items \<Rightarrow> st\<lparr>localItems := items\<rparr> | None \<Rightarrow> st)"

text \<open>
  A commit after a render: each effect runs when its dependency differs from the one of
  the previous render (\<open>prev\<close>), in the order of the source. React compares dependencies
  with \<open>Object.is\<close>; on strings and undefined that is equality. For the array \<open>data\<close> it
  is identity, which a value cannot tell from equality of contents; an effect that
  stores an array of the same contents leaves the contents of the state as they were.
\<close>

definition commitEffects ::
  "SearchBarProps \<times> PokemonName list option \<Rightarrow> SearchBarProps \<times> PokemonName list option
     \<Rightarrow> SelectionState \<Rightarrow> SelectionState" where
  "commitEffects prev cur st =
     (let st1 = (if value_prop (fst cur) \<noteq> value_prop (fst prev)
                 then effect_value (fst cur) st else st);
          st2 = (if inputValue (fst cur) \<noteq> inputValue (fst prev)
                 then effect_inputValue (fst cur) st1 else st1)
      in if snd cur \<noteq> snd prev then effect_data (snd cur) st2 else st2)"

text \<open>
  \<open>handleSelectionChange\<close>, the \<open>onSelectionChange\<close> callback of the dropdown. The
  predicate of its \<open>find\<close> is \<open>matches_key\<close>.
\<close>

definition matches_key :: "string \<Rightarrow> PokemonName \<Rightarrow> bool" where
  "matches_key selectedId item = (number_toString (pokemon_species_id item) = selectedId)"

definition handleSelectionChange ::
  "SearchBarProps \<Rightarrow> SelectionState \<Rightarrow> Key option \<Rightarrow> SelectionState \<times> Notification list" where
  "handleSelectionChange props st key =
     (case key of
        None \<Rightarrow> (st, [])
      | Some k \<Rightarrow>
          if truthy (Some k) then
            (let selectedId = key_toString k;
                 st1 = st\<lparr>selectedKey := selectedId\<rparr>;
                 log1 = optional_call (onChange props) (OnChange selectedId)
             in case find (matches_key selectedId) (localItems st) of
                  Some selectedPokemon \<Rightarrow>
                    (st1\<lparr>search := name selectedPokemon\<rparr>,
                     log1 @ optional_call (onInputChange props)
                              (OnInputChange (name selectedPokemon)))
                | None \<Rightarrow> (st1, log1))
          else (st, []))"

text \<open>\<open>handleInputChange\<close>, the \<open>onInputChange\<close> callback of the text field.\<close>

definition handleInputChange ::
  "SearchBarProps \<Rightarrow> SelectionState \<Rightarrow> string \<Rightarrow> SelectionState \<times> Notification list" where
  "handleInputChange props st v =
     (st\<lparr>search := v\<rparr>, optional_call (onInputChange props) (OnInputChange v))"

subsection \<open>Numbers and the random draw\<close>

text \<open>
  A JavaScript Number is an IEEE-754 binary64 value. The finite ones are the rationals
  \<open>m * 2 ^ e\<close> with \<open>\<bar>m\<bar> < 2 ^ 53\<close> and \<open>- 1074 \<le> e\<close>; an arithmetic operation
  returns the exact result rounded to the nearest of them, a tie going to the even
  significand. In units of \<open>2 ^ - 1074\<close> (the smallest positive Number) the magnitude
  \<open>y\<close> of the exact result is rounded to a multiple of \<open>2 ^ j\<close>, where \<open>j\<close> is the number
  of bits by which the integer part of \<open>y\<close> exceeds 53 bits (none for a subnormal).
  \<open>round_binary p E\<close> is that rounding for a significand of \<open>p\<close> bits and the unit
  \<open>2 ^ - E\<close>.
  Overflow to infinity (from \<open>2 ^ 1024\<close> on) is left out: the products below are
  smaller than the array length.
\<close>

function bit_length :: "int \<Rightarrow> nat" where
  "bit_length n = (if n \<le> 0 then 0 else Suc (bit_length (n div 2)))"
  by pat_completeness auto
termination
  by (relation "measure nat") auto

declare bit_length.simps [simp del]

definition round_ties_even :: "rat \<Rightarrow> int" where
  "round_ties_even q =
     (let f = \<lfloor>q\<rfloor>; d = q - of_int f
      in if d < 1 / 2 then f else if 1 / 2 < d then f + 1 else if even f then f else f + 1)"

definition round_binary :: "nat \<Rightarrow> nat \<Rightarrow> rat \<Rightarrow> rat" where
  "round_binary p E x =
     (let y = \<bar>x\<bar> * 2 ^ E;
          j = bit_length \<lfloor>y\<rfloor> - p;
          q = y / 2 ^ j
      in sgn x * (of_int (round_ties_even q) * 2 ^ j / 2 ^ E))"

definition round_double :: "rat \<Rightarrow> rat" where
  "round_double x = round_binary 53 1074 x"

definition is_double :: "rat \<Rightarrow> bool" where
  "is_double x = (round_double x = x)"

text \<open>The Number operator \<open>*\<close> and \<open>Math.floor\<close> (on a finite Number).\<close>

definition number_times :: "rat \<Rightarrow> rat \<Rightarrow> rat" where
  "number_times a b = round_double (a * b)"

definition Math_floor :: "rat \<Rightarrow> int" where
  "Math_floor x = \<lfloor>x\<rfloor>"

text \<open>
  What \<open>Math.random()\<close> may return (ECMAScript): a Number with positive sign, greater
  than or equal to 0 and less than 1.
\<close>

definition Math_random_result :: "rat \<Rightarrow> bool" where
  "Math_random_result r = (is_double r \<and> 0 \<le> r \<and> r < 1)"

text \<open>
  \<open>handleRandomPick\<close>, the \<open>onPress\<close> callback of the button. \<open>PokemonIDs\<close> is what the
  hook \<open>usePokemonIDByGeneration\<close> returned in this render and \<open>data\<close> what
  \<open>usePokemonName\<close> returned; \<open>rnd\<close> is the value of the call \<open>Math.random()\<close>. An
  index outside the array reads \<open>undefined\<close>, and \<open>undefined.toString()\<close> throws a
  TypeError. The predicate of the \<open>find\<close> is \<open>has_id\<close>.
\<close>

datatype error = TypeError

definition has_id :: "SafeInteger \<Rightarrow> PokemonName \<Rightarrow> bool" where
  "has_id randomPokemon item = (pokemon_species_id item = randomPokemon)"

definition randomIndex :: "rat \<Rightarrow> nat \<Rightarrow> int" where
  "randomIndex rnd len = Math_floor (number_times rnd (of_nat len))"

definition handleRandomPick ::
  "SearchBarProps \<Rightarrow> SafeInteger list option \<Rightarrow> PokemonName list option \<Rightarrow> rat
     \<Rightarrow> SelectionState \<Rightarrow> error + SelectionState \<times> Notification list" where
  "handleRandomPick props PokemonIDs data rnd st =
     (case PokemonIDs of
        None \<Rightarrow> Inr (st, [])
      | Some ids \<Rightarrow>
          if length ids > 0 then
            (let i = randomIndex rnd (length ids)
             in if 0 \<le> i \<and> i < int (length ids) then
                  (let randomPokemon = ids ! nat i;
                       log1 = optional_call (onChange props)
                                (OnChange (number_toString randomPokemon))
                   in case data of
                        None \<Rightarrow> Inr (st, log1)
                      | Some items \<Rightarrow>
                          (case find (has_id randomPokemon) items of
                             Some pokemonItem \<Rightarrow>
                               Inr (st\<lparr>search := name pokemonItem\<rparr>,
                                    log1 @ optional_call (onInputChange props)
                                             (OnInputChange (name pokemonItem)))
                           | None \<Rightarrow> Inr (st, log1)))
                else Inl TypeError)
          else Inr (st, []))"

subsection \<open>The rendered tree and the highlight correction\<close>

text \<open>
  The part of the DOM under \<open>autocompleteRef.current\<close>. An element has its attributes
  (an association list; the \<open>class\<close> attribute is held apart, as the token list
  \<open>classList\<close>) and its child nodes; a text node has neither attributes nor children.
\<close>

datatype Node = Element "(string \<times> string) list" "string list" "Node list" | Text string

fun getAttribute :: "Node \<Rightarrow> string \<Rightarrow> string option" where
  "getAttribute (Element attrs cls children) k = map_of attrs k"
| "getAttribute (Text t) k = None"

fun classList :: "Node \<Rightarrow> string list" where
  "classList (Element attrs cls children) = cls"
| "classList (Text t) = []"

text \<open>The selector \<open>[role="r"]\<close>.\<close>

definition has_role :: "string \<Rightarrow> Node \<Rightarrow> bool" where
  "has_role r n = (getAttribute n ''role'' = Some r)"

text \<open>
  The descendants of a node in document order, and the two queries on them:
  \<open>querySelector\<close> returns the first match, \<open>querySelectorAll\<close> all of them.
\<close>

fun descendants :: "Node \<Rightarrow> Node list" where
  "descendants (Element attrs cls children) = concat (map (\<lambda>c. c # descendants c) children)"
| "descendants (Text t) = []"

definition querySelector :: "Node \<Rightarrow> string \<Rightarrow> Node option" where
  "querySelector el r = find (has_role r) (descendants el)"

definition querySelectorAll :: "Node \<Rightarrow> string \<Rightarrow> Node list" where
  "querySelectorAll el r = filter (has_role r) (descendants el)"

text \<open>
  The body of the \<open>forEach\<close> in \<open>removeFirstItemSelection\<close>:
  \<open>setAttribute("aria-selected", "false")\<close>, then the removal of the class \<open>selected\<close>
  where the element has it.
\<close>

fun deselect :: "Node \<Rightarrow> Node" where
  "deselect (Element attrs cls children) =
     Element (AList.update ''aria-selected'' ''false'' attrs)
       (if ''selected'' \<in> set cls then removeAll ''selected'' cls else cls) children"
| "deselect (Text t) = Text t"

text \<open>
  The DOM is mutated in place; the tree is a value here, so the loop returns the tree it
  leaves behind. \<open>forEach_option listbox\<close> is \<open>listbox\<close> after the body has run on every
  element of \<open>listbox.querySelectorAll('[role="option"]')\<close>, that is on each descendant
  with the role \<open>option\<close>.
\<close>

fun forEach_option :: "Node \<Rightarrow> Node" where
  "forEach_option (Element attrs cls children) =
     Element attrs cls
       (map (\<lambda>c. if has_role ''option'' c then deselect (forEach_option c) else forEach_option c)
          children)"
| "forEach_option (Text t) = Text t"

text \<open>
  \<open>in_first_listbox el\<close> is \<open>el\<close> after the loop has run in the listbox that
  \<open>querySelector\<close> finds under it: in document order a child is met before its own
  descendants, and these before the later children.
\<close>

fun in_first_listbox :: "Node \<Rightarrow> Node"
  and in_first_listbox_of :: "Node list \<Rightarrow> Node list" where
  "in_first_listbox (Element attrs cls children) = Element attrs cls (in_first_listbox_of children)"
| "in_first_listbox (Text t) = Text t"
| "in_first_listbox_of [] = []"
| "in_first_listbox_of (c # cs) =
     (if has_role ''listbox'' c then forEach_option c # cs
      else if querySelector c ''listbox'' \<noteq> None then in_first_listbox c # cs
      else c # in_first_listbox_of cs)"

text \<open>
  \<open>removeFirstItemSelection\<close>, on the content of \<open>autocompleteRef.current\<close> (null is
  \<open>None\<close>).
\<close>

definition removeFirstItemSelection :: "Node option \<Rightarrow> Node option" where
  "removeFirstItemSelection current =
     (case current of
        None \<Rightarrow> None
      | Some container \<Rightarrow>
          (case querySelector container ''listbox'' of
             Some listbox \<Rightarrow> Some (in_first_listbox container)
           | None \<Rightarrow> Some container))"

text \<open>
  The callback of the \<open>MutationObserver\<close>: for each record of type \<open>childList\<close> with
  added nodes, one of which has the role \<open>listbox\<close>, it schedules
  \<open>removeFirstItemSelection\<close> once (\<open>setTimeout(..., 0)\<close>, then \<open>break\<close>). The result is
  the number of passes it scheduled.
\<close>

record MutationRecord =
  mutation_type :: string
  addedNodes :: "Node list"

definition schedules_pass :: "MutationRecord \<Rightarrow> bool" where
  "schedules_pass mutation =
     (mutation_type mutation = ''childList'' \<and> length (addedNodes mutation) > 0 \<and>
      list_ex (has_role ''listbox'') (addedNodes mutation))"

definition observerCallback :: "MutationRecord list \<Rightarrow> nat" where
  "observerCallback mutations = length (filter schedules_pass mutations)"

text \<open>
  What the corrector leaves of the tree after a batch of mutations. The callback gets
  the records of the batch; each pass it scheduled runs later, one after the other, on
  what \<open>autocompleteRef.current\<close> then holds (\<open>current\<close>, the tree with the nodes of the
  batch in it). No pass scheduled, no change.
\<close>

definition run_scheduled :: "nat \<Rightarrow> Node option \<Rightarrow> Node option" where
  "run_scheduled passes current = (removeFirstItemSelection ^^ passes) current"

definition after_mutations :: "MutationRecord list \<Rightarrow> Node option \<Rightarrow> Node option" where
  "after_mutations mutations current = run_scheduled (observerCallback mutations) current"

subsection \<open>Properties and example data\<close>

text \<open>An option that the correction pass has been through.\<close>

definition deselected :: "Node \<Rightarrow> bool" where
  "deselected n =
     (getAttribute n ''aria-selected'' = Some ''false'' \<and> ''selected'' \<notin> set (classList n))"

text \<open>Both callbacks supplied, no controlled props.\<close>

definition example_props :: SearchBarProps where
  "example_props = \<lparr>onChange = True, value_prop = None, onInputChange = True, inputValue = None\<rparr>"

definition pikachu :: PokemonName where
  "pikachu = \<lparr>pokemon_species_id = Safe 25, name = ''pikachu''\<rparr>"

definition charmander :: PokemonName where
  "charmander = \<lparr>pokemon_species_id = Safe 4, name = ''charmander''\<rparr>"

text \<open>The user has typed \<open>pik\<close>, nothing is selected, the snapshot holds the hits.\<close>

definition typed_state :: SelectionState where
  "typed_state = \<lparr>search = ''pik'', selectedKey = [], localItems = [pikachu]\<rparr>"

text \<open>
  The user has typed \<open>pik\<close> after \<open>char\<close>: the query for \<open>pik\<close> has not answered yet
  (\<open>data\<close> is undefined meanwhile), and the snapshot still holds the hits for \<open>char\<close>.
\<close>

definition stale_state :: SelectionState where
  "stale_state = \<lparr>search = ''pik'', selectedKey = [], localItems = [charmander]\<rparr>"

text \<open>
  The listbox as the dropdown renders it on opening: two options, the first marked as
  selected.
\<close>

definition selected_option :: Node where
  "selected_option =
     Element [(''role'', ''option''), (''aria-selected'', ''true'')] [''selected''] [Text ''bulbasaur'']"

definition open_listbox :: Node where
  "open_listbox =
     Element [(''role'', ''listbox'')] [] [selected_option, Element [(''role'', ''option'')] [] [Text ''ivysaur'']]"

text \<open>
  The container after the opening, when the listbox itself was the added node, and the
  record of that mutation.
\<close>

definition example_container :: Node where
  "example_container = Element [] [''flex-1''] [Element [(''role'', ''combobox'')] [] [], open_listbox]"

definition listbox_added :: MutationRecord where
  "listbox_added = \<lparr>mutation_type = ''childList'', addedNodes = [open_listbox]\<rparr>"

text \<open>
  The container after the opening, when the listbox came inside a wrapper element (the
  content of a popover), and the record of that mutation: the added node is the wrapper.
\<close>

definition popover :: Node where
  "popover = Element [(''data-slot'', ''content'')] [] [open_listbox]"

definition wrapped_container :: Node where
  "wrapped_container = Element [] [''flex-1''] [Element [(''role'', ''combobox'')] [] [], popover]"

definition popover_added :: MutationRecord where
  "popover_added = \<lparr>mutation_type = ''childList'', addedNodes = [popover]\<rparr>"

section \<open>Facts about the model\<close>

subsection \<open>Rounding\<close>

text \<open>\<open>bit_length n\<close> is the number of binary digits of a positive \<open>n\<close>.\<close>

lemma bit_length_less: "n < 2 ^ bit_length n"
proof (induction n rule: bit_length.induct)
  case (1 n)
  show ?case
  proof (cases "n \<le> 0")
    case True
    then show ?thesis by (simp add: bit_length.simps)
  next
    case False
    with 1 have "n div 2 < 2 ^ bit_length (n div 2)" by simp
    then have "n < 2 * 2 ^ bit_length (n div 2)" by linarith
    with False show ?thesis by (subst bit_length.simps) simp
  qed
qed

lemma bit_length_ge: "0 < n \<Longrightarrow> 2 ^ (bit_length n - 1) \<le> n"
proof (induction n rule: bit_length.induct)
  case (1 n)
  show ?case
  proof (cases "n div 2 \<le> 0")
    case True
    with 1(2) have "bit_length n = 1" by (simp add: bit_length.simps)
    with 1(2) show ?thesis by simp
  next
    case False
    with 1 have ih: "2 ^ (bit_length (n div 2) - 1) \<le> n div 2" by simp
    from False have "0 < bit_length (n div 2)" by (subst bit_length.simps) simp
    then have "(2::int) ^ bit_length (n div 2) = 2 * 2 ^ (bit_length (n div 2) - 1)"
      by (cases "bit_length (n div 2)") simp_all
    with ih have "2 ^ bit_length (n div 2) \<le> n" by linarith
    with 1(2) show ?thesis by (subst bit_length.simps) simp
  qed
qed

lemma bit_length_le: "n < 2 ^ w \<Longrightarrow> bit_length n \<le> w"
proof (cases "n \<le> 0")
  case True
  then show ?thesis by (simp add: bit_length.simps)
next
  case False
  assume "n < 2 ^ w"
  moreover from False bit_length_ge [of n] have "2 ^ (bit_length n - 1) \<le> n" by simp
  ultimately have "(2::int) ^ (bit_length n - 1) < 2 ^ w" by (rule le_less_trans [rotated])
  then have "bit_length n - 1 < w" by simp
  then show ?thesis by simp
qed

text \<open>Rounding to an integer never passes an integer, nor a point half-way below one.\<close>

lemma round_ties_even_cases:
  "round_ties_even q = \<lfloor>q\<rfloor> \<or> round_ties_even q = \<lfloor>q\<rfloor> + 1 \<and> of_int \<lfloor>q\<rfloor> + 1 / 2 \<le> q"
  unfolding round_ties_even_def Let_def by auto

lemma round_ties_even_le: "q \<le> of_int k \<Longrightarrow> round_ties_even q \<le> k"
proof -
  assume a: "q \<le> of_int k"
  then have f: "\<lfloor>q\<rfloor> \<le> k" by (simp add: floor_le_iff)
  from round_ties_even_cases [of q] show ?thesis
  proof
    assume "round_ties_even q = \<lfloor>q\<rfloor>"
    with f show ?thesis by simp
  next
    assume b: "round_ties_even q = \<lfloor>q\<rfloor> + 1 \<and> of_int \<lfloor>q\<rfloor> + 1 / 2 \<le> q"
    with a have "(of_int \<lfloor>q\<rfloor> :: rat) < of_int k" by linarith
    then have "\<lfloor>q\<rfloor> < k" by (simp only: of_int_less_iff)
    with b show ?thesis by simp
  qed
qed

lemma round_ties_even_le_half: "q < of_int k - 1 / 2 \<Longrightarrow> round_ties_even q \<le> k - 1"
proof -
  assume a: "q < of_int k - 1 / 2"
  have "of_int \<lfloor>q\<rfloor> \<le> q" by simp
  with a have "(of_int \<lfloor>q\<rfloor> :: rat) < of_int k" by linarith
  then have f: "\<lfloor>q\<rfloor> < k" by (simp only: of_int_less_iff)
  from round_ties_even_cases [of q] show ?thesis
  proof
    assume "round_ties_even q = \<lfloor>q\<rfloor>"
    with f show ?thesis by simp
  next
    assume b: "round_ties_even q = \<lfloor>q\<rfloor> + 1 \<and> of_int \<lfloor>q\<rfloor> + 1 / 2 \<le> q"
    with a have "(of_int \<lfloor>q\<rfloor> :: rat) + 1 < of_int k" by linarith
    then have "(of_int (\<lfloor>q\<rfloor> + 1) :: rat) < of_int k" by simp
    then have "\<lfloor>q\<rfloor> + 1 < k" by (simp only: of_int_less_iff)
    with b show ?thesis by simp
  qed
qed

lemma round_ties_even_nonneg: "0 \<le> q \<Longrightarrow> 0 \<le> round_ties_even q"
  unfolding round_ties_even_def Let_def by auto

text \<open>The binade of a scaled magnitude, read off the bit length of its integer part.\<close>

lemma scaled_less_power:
  fixes y :: rat
  shows "y < 2 ^ bit_length \<lfloor>y\<rfloor>"
proof -
  have "\<lfloor>y\<rfloor> < 2 ^ bit_length \<lfloor>y\<rfloor>" by (rule bit_length_less)
  then have "y < of_int (2 ^ bit_length \<lfloor>y\<rfloor>)" by (simp only: floor_less_iff)
  then show ?thesis by simp
qed

lemma scaled_ge_power:
  fixes y :: rat
  assumes "0 < bit_length \<lfloor>y\<rfloor>"
  shows "2 ^ (bit_length \<lfloor>y\<rfloor> - 1) \<le> y"
proof -
  from assms have pos: "0 < \<lfloor>y\<rfloor>" by (cases "\<lfloor>y\<rfloor> \<le> 0") (simp_all add: bit_length.simps)
  then have "2 ^ (bit_length \<lfloor>y\<rfloor> - 1) \<le> \<lfloor>y\<rfloor>" by (rule bit_length_ge)
  then have "(of_int (2 ^ (bit_length \<lfloor>y\<rfloor> - 1)) :: rat) \<le> y" by (simp only: le_floor_iff)
  then show ?thesis by simp
qed

lemma scaled_bit_length_le:
  fixes y :: rat
  assumes "y < 2 ^ w"
  shows "bit_length \<lfloor>y\<rfloor> \<le> w"
proof (rule bit_length_le)
  from assms have "y < of_int (2 ^ w)" by simp
  then show "\<lfloor>y\<rfloor> < 2 ^ w" by (simp only: floor_less_iff)
qed

text \<open>
  The product of a factor \<open>r \<le> 1 - 2 ^ - p\<close> and a positive integer \<open>n < 2 ^ p\<close> rounds to
  less than \<open>n\<close>. With \<open>y\<close> the scaled exact product and \<open>b\<close> its bit length: when
  \<open>b < E\<close> the rounded value is at most \<open>2 ^ b\<close>, below the scaled \<open>n\<close>; otherwise the
  scaled \<open>n\<close> is a multiple \<open>K\<close> of the rounding unit, \<open>y\<close> is at least \<open>n / 2 ^ d\<close> units
  below it (\<open>d = b - E\<close>), and that distance is more than half a unit, so rounding stops
  at \<open>K - 1\<close>.
\<close>

lemma round_binary_product_less:
  fixes r :: rat and n :: nat
  assumes r0: "0 \<le> r" and r1: "r \<le> 1 - 1 / 2 ^ p"
    and n0: "0 < n" and n1: "n < 2 ^ p" and pE: "p < E"
  shows "round_binary p E (r * of_nat n) < of_nat n"
proof (cases "r = 0")
  case True
  with n0 show ?thesis by (simp add: round_binary_def)
next
  case False
  define x where "x = r * of_nat n"
  define y where "y = x * 2 ^ E"
  define b where "b = bit_length \<lfloor>y\<rfloor>"
  define j where "j = b - p"
  define q where "q = y / 2 ^ j"
  define R where "R = round_ties_even q"
  define N :: rat where "N = of_nat n"
  from False r0 n0 have xpos: "0 < x" by (simp add: x_def)
  then have ypos: "0 < y" by (simp add: y_def)
  have Npos: "0 < N" using n0 by (simp add: N_def)
  have rb: "round_binary p E (r * of_nat n) = of_int R * 2 ^ j / 2 ^ E"
    using xpos by (simp add: round_binary_def Let_def R_def q_def j_def b_def y_def x_def)
  have y_lt: "y < 2 ^ b" unfolding b_def by (rule scaled_less_power)
  have y_N: "y = r * (N * 2 ^ E)" by (simp add: y_def x_def N_def)
  have NE: "0 < N * 2 ^ E" using Npos by simp
  from r1 NE have "r * (N * 2 ^ E) \<le> (1 - 1 / 2 ^ p) * (N * 2 ^ E)"
    by (rule mult_right_mono [OF _ less_imp_le])
  then have y_le: "y \<le> N * 2 ^ E - N * 2 ^ E / 2 ^ p" by (simp add: y_N algebra_simps)
  have "(0::rat) < 1 / 2 ^ p" by simp
  with r1 have "r < 1" by linarith
  with NE have "r * (N * 2 ^ E) < 1 * (N * 2 ^ E)" by (simp only: mult_less_cancel_right_pos)
  then have y_ltN: "y < N * 2 ^ E" unfolding y_N by simp
  have goal: "of_int R * 2 ^ j < N * (2::rat) ^ E"
  proof (cases "b < E")
    case True
    have "q < 2 ^ p"
    proof (cases "b \<le> p")
      case True
      then have "j = 0" by (simp add: j_def)
      then have qy: "q = y" by (simp add: q_def)
      from True have "(2::rat) ^ b \<le> 2 ^ p" by simp
      with y_lt have "y < 2 ^ p" by linarith
      with qy show ?thesis by (simp only:)
    next
      case False
      then have "b = p + j" by (simp add: j_def)
      then have "(2::rat) ^ b = 2 ^ p * 2 ^ j" by (simp add: power_add)
      with y_lt show ?thesis by (simp add: q_def divide_less_eq)
    qed
    then have "q \<le> of_int (2 ^ p)" by simp
    then have "R \<le> 2 ^ p" unfolding R_def by (rule round_ties_even_le)
    then have "(of_int R :: rat) \<le> of_int (2 ^ p)" by (simp only: of_int_le_iff)
    then have "(of_int R :: rat) \<le> 2 ^ p" by simp
    then have "of_int R * (2::rat) ^ j \<le> 2 ^ p * 2 ^ j" by (simp add: mult_right_mono)
    also have "\<dots> = 2 ^ (p + j)" by (simp add: power_add)
    also have "\<dots> < 2 ^ E" using True pE by (simp add: j_def)
    also have "\<dots> \<le> N * 2 ^ E" using n0 by (simp add: N_def)
    finally show ?thesis .
  next
    case False
    define d where "d = b - E"
    define c where "c = bit_length (int n)"
    from False pE have bE: "b = d + E" and jd: "j = d + (E - p)" and Ep: "E = (E - p) + p"
      by (simp_all add: d_def j_def)
    have N_int: "N = of_int (int n)" by (simp add: N_def)
    from n1 have "int n < 2 ^ p" by (metis of_nat_less_iff of_nat_numeral of_nat_power)
    then have c_le: "c \<le> p" unfolding c_def by (rule bit_length_le)
    have "int n < 2 ^ c" unfolding c_def by (rule bit_length_less)
    then have "(of_int (int n) :: rat) < of_int (2 ^ c)" by (simp only: of_int_less_iff)
    then have N_lt: "N < 2 ^ c" by (simp add: N_int)
    from n0 have "2 ^ (c - 1) \<le> int n" unfolding c_def by (intro bit_length_ge) simp
    then have "(of_int (2 ^ (c - 1)) :: rat) \<le> of_int (int n)" by (simp only: of_int_le_iff)
    then have N_ge: "2 ^ (c - 1) \<le> N" by (simp add: N_int)
    have c_pos: "0 < c" using n0 by (simp add: c_def bit_length.simps)
    from N_lt have "N * 2 ^ E < 2 ^ c * 2 ^ E"
      by (simp only: mult_less_cancel_right_pos zero_less_power zero_less_numeral)
    with y_ltN have "y < 2 ^ c * 2 ^ E" by linarith
    then have "y < 2 ^ (c + E)" by (simp only: power_add)
    then have "b \<le> c + E" unfolding b_def by (rule scaled_bit_length_le)
    with bE have d_le: "d \<le> c" by simp
    with c_le have d_p: "d \<le> p" by simp
    define K :: int where "K = int n * 2 ^ (p - d)"
    have pd: "p = (p - d) + d" using d_p by simp
    have "j + (p - d) = E" using jd d_p pE by simp
    then have "(2::rat) ^ E = 2 ^ (p - d) * 2 ^ j" by (metis add.commute power_add)
    then have KE: "of_int K * (2::rat) ^ j = N * 2 ^ E" by (simp add: K_def N_def)
    have E2: "(2::rat) ^ E = 2 ^ (E - p) * 2 ^ p" using Ep by (metis power_add)
    have j2: "(2::rat) ^ j = 2 ^ d * 2 ^ (E - p)" using jd by (simp add: power_add)
    have "q \<le> (N * 2 ^ E - N * 2 ^ E / 2 ^ p) / 2 ^ j"
      unfolding q_def using y_le by (simp add: divide_right_mono)
    also have "\<dots> = N * 2 ^ E / 2 ^ j - N * 2 ^ E / 2 ^ p / 2 ^ j" by (simp add: diff_divide_distrib)
    also have "N * 2 ^ E / 2 ^ j = of_int K" using KE by (simp add: field_simps)
    also have "N * 2 ^ E / 2 ^ p / 2 ^ j = N / 2 ^ d" by (simp add: E2 j2)
    finally have q_le: "q \<le> of_int K - N / 2 ^ d" .
    have "R \<le> K - 1"
    proof (cases "d < c")
      case True
      then have "d \<le> c - 1" by simp
      then have "(2::rat) ^ d \<le> 2 ^ (c - 1)" by simp
      with N_ge have "2 ^ d \<le> N" by linarith
      then have "1 \<le> N / 2 ^ d" by (simp add: le_divide_eq)
      with q_le have "q \<le> of_int K - 1" by linarith
      then have "q \<le> of_int (K - 1)" by simp
      then show ?thesis unfolding R_def by (rule round_ties_even_le)
    next
      case False
      with d_le have dc: "d = c" by simp
      with bE c_pos have "0 < b" by simp
      then have "2 ^ (b - 1) \<le> y" unfolding b_def by (rule scaled_ge_power)
      moreover from bE dc c_pos have "b - 1 = (c - 1) + E" by simp
      ultimately have "2 ^ (c - 1) * 2 ^ E \<le> y" by (simp add: power_add)
      with y_ltN have "2 ^ (c - 1) * (2::rat) ^ E < N * 2 ^ E" by linarith
      then have "2 ^ (c - 1) < N"
        by (simp only: mult_less_cancel_right_pos zero_less_power zero_less_numeral)
      moreover from c_pos have "(2::rat) ^ c = 2 * 2 ^ (c - 1)" by (cases c) simp_all
      ultimately have "2 ^ c < 2 * N" by linarith
      then have "1 / 2 < N / 2 ^ c" by (simp add: less_divide_eq)
      moreover from q_le dc have "q \<le> of_int K - N / 2 ^ c" by simp
      ultimately have "q < of_int K - 1 / 2" by linarith
      then show ?thesis unfolding R_def by (rule round_ties_even_le_half)
    qed
    then have "(of_int R :: rat) \<le> of_int (K - 1)" by (simp only: of_int_le_iff)
    then have "of_int R * (2::rat) ^ j \<le> of_int (K - 1) * 2 ^ j" by (simp add: mult_right_mono)
    also have "\<dots> < of_int K * 2 ^ j" by simp
    finally show ?thesis using KE by simp
  qed
  then have "of_int R * 2 ^ j / 2 ^ E < N" by (simp add: divide_less_eq)
  with rb show ?thesis by (simp add: N_def)
qed

text \<open>The sign is kept.\<close>

lemma round_binary_nonneg: "0 \<le> x \<Longrightarrow> 0 \<le> round_binary p E x"
proof -
  assume x: "0 \<le> x"
  then have "0 \<le> \<bar>x\<bar> * 2 ^ E / 2 ^ (bit_length \<lfloor>\<bar>x\<bar> * 2 ^ E\<rfloor> - p)" by simp
  then have "0 \<le> round_ties_even (\<bar>x\<bar> * 2 ^ E / 2 ^ (bit_length \<lfloor>\<bar>x\<bar> * 2 ^ E\<rfloor> - p))"
    by (rule round_ties_even_nonneg)
  with x show ?thesis by (simp add: round_binary_def Let_def sgn_if)
qed

text \<open>A value below 1 that rounding leaves as it is, is at most \<open>1 - 2 ^ - p\<close>.\<close>

lemma round_binary_fixed_below_one:
  fixes r :: rat
  assumes fx: "round_binary p E r = r" and r0: "0 \<le> r" and r1: "r < 1"
    and p0: "0 < p" and pE: "p \<le> E"
  shows "r \<le> 1 - 1 / 2 ^ p"
proof (cases "r = 0")
  case True
  then show ?thesis by simp
next
  case False
  define y where "y = r * 2 ^ E"
  define b where "b = bit_length \<lfloor>y\<rfloor>"
  define j where "j = b - p"
  define R where "R = round_ties_even (y / 2 ^ j)"
  from False r0 have rpos: "0 < r" by simp
  then have ypos: "0 < y" by (simp add: y_def)
  from fx rpos have "of_int R * 2 ^ j / 2 ^ E = r"
    by (simp add: round_binary_def Let_def R_def j_def b_def y_def)
  then have yR: "y = of_int R * 2 ^ j" by (simp add: y_def field_simps)
  from r1 have y_ltE: "y < 2 ^ E" by (simp add: y_def)
  then have b_le: "b \<le> E" unfolding b_def by (rule scaled_bit_length_le)
  have y_lt: "y < 2 ^ b" unfolding b_def by (rule scaled_less_power)
  from p0 have "(2::rat) ^ p = 2 * 2 ^ (p - 1)" by (cases p) simp_all
  moreover have "(1::rat) \<le> 2 ^ (p - 1)" by simp
  ultimately have half: "(2::rat) \<le> 2 ^ p" by linarith
  have "y \<le> 2 ^ E - 2 ^ E / 2 ^ p"
  proof (cases "b < E")
    case True
    then have "E = Suc (E - 1)" and "b \<le> E - 1" by simp_all
    then have "(2::rat) ^ E = 2 * 2 ^ (E - 1)" and "(2::rat) ^ b \<le> 2 ^ (E - 1)"
      by (metis power_Suc, simp)
    with y_lt have "y \<le> 2 ^ E / 2" by linarith
    also have "\<dots> \<le> 2 ^ E - 2 ^ E / 2 ^ p"
    proof -
      from half have "(2::rat) ^ E / 2 ^ p \<le> 2 ^ E / 2" by (intro divide_left_mono) simp_all
      then show ?thesis by (simp add: field_simps)
    qed
    finally show ?thesis .
  next
    case False
    with b_le pE have jE: "j = E - p" and Ep: "E = p + (E - p)" by (simp_all add: j_def)
    then have E2: "(2::rat) ^ E = 2 ^ p * 2 ^ j" by (metis power_add)
    from y_ltE have "of_int R * (2::rat) ^ j < 2 ^ p * 2 ^ j" by (simp only: yR E2)
    then have "(of_int R :: rat) < of_int (2 ^ p)" by simp
    then have "R < 2 ^ p" by (simp only: of_int_less_iff)
    then have "R \<le> 2 ^ p - 1" by simp
    then have "(of_int R :: rat) \<le> of_int (2 ^ p - 1)" by (simp only: of_int_le_iff)
    then have "(of_int R :: rat) \<le> 2 ^ p - 1" by simp
    then have "of_int R * (2::rat) ^ j \<le> (2 ^ p - 1) * 2 ^ j" by (simp add: mult_right_mono)
    also have "\<dots> = 2 ^ E - 2 ^ E / 2 ^ p" by (simp add: E2 algebra_simps)
    finally show ?thesis by (simp only: yR)
  qed
  then have "r * 2 ^ E \<le> (1 - 1 / 2 ^ p) * 2 ^ E" by (simp add: y_def algebra_simps)
  then show ?thesis by (simp only: mult_le_cancel_right_pos zero_less_power zero_less_numeral)
qed

text \<open>The index of the draw, for an array whose length is a Number that is exact.\<close>

lemma randomIndex_in_range:
  assumes "Math_random_result rnd" and "0 < len" and "len < 2 ^ 53"
  shows "0 \<le> randomIndex rnd len \<and> randomIndex rnd len < int len"
proof -
  from assms(1) have fx: "round_binary 53 1074 rnd = rnd" and r0: "0 \<le> rnd" and r1: "rnd < 1"
    by (simp_all add: Math_random_result_def is_double_def round_double_def)
  from fx r0 r1 have le: "rnd \<le> 1 - 1 / 2 ^ 53"
    by (rule round_binary_fixed_below_one) simp_all
  from r0 le assms(2,3) have "round_binary 53 1074 (rnd * of_nat len) < of_nat len"
    by (rule round_binary_product_less) simp
  then have "number_times rnd (of_nat len) < of_int (int len)"
    by (simp add: number_times_def round_double_def)
  then have up: "randomIndex rnd len < int len"
    unfolding randomIndex_def Math_floor_def by (simp only: floor_less_iff)
  from r0 have "0 \<le> rnd * of_nat len" by simp
  then have "0 \<le> round_binary 53 1074 (rnd * of_nat len)" by (rule round_binary_nonneg)
  then have "0 \<le> randomIndex rnd len"
    by (simp add: randomIndex_def Math_floor_def number_times_def round_double_def)
  with up show ?thesis by simp
qed

text \<open>
  Rounding leaves \<open>m / 2 ^ k\<close> as it is when \<open>m\<close> fits the significand: such values are
  Numbers, and \<open>Math.random()\<close> may return any of them below 1.
\<close>

lemma round_ties_even_of_int: "round_ties_even (of_int z) = z"
  by (simp add: round_ties_even_def)

lemma round_binary_dyadic:
  assumes m0: "0 \<le> m" and mp: "m < 2 ^ p" and kE: "k \<le> E"
  shows "round_binary p E (of_int m / 2 ^ k) = of_int m / 2 ^ k"
proof (cases "m = 0")
  case True
  then show ?thesis by (simp add: round_binary_def)
next
  case False
  with m0 have mpos: "0 < m" by simp
  define M where "M = m * 2 ^ (E - k)"
  define j where "j = bit_length M - p"
  from kE have Ek: "E = (E - k) + k" by simp
  then have E2: "(2::rat) ^ E = 2 ^ (E - k) * 2 ^ k" by (metis power_add)
  have y: "\<bar>of_int m / 2 ^ k\<bar> * 2 ^ E = (of_int M :: rat)"
    using m0 by (simp add: M_def E2)
  from mp have "M < 2 ^ p * 2 ^ (E - k)" by (simp add: M_def)
  then have "M < 2 ^ (p + (E - k))" by (simp only: power_add)
  then have "bit_length M \<le> p + (E - k)" by (rule bit_length_le)
  then have jle: "j \<le> E - k" by (simp add: j_def)
  then have "E - k = (E - k - j) + j" by simp
  then have "(2::int) ^ (E - k) = 2 ^ (E - k - j) * 2 ^ j" by (metis power_add)
  then have "M = (m * 2 ^ (E - k - j)) * 2 ^ j" by (simp add: M_def)
  then have Mq: "(of_int M :: rat) = of_int (m * 2 ^ (E - k - j)) * 2 ^ j" by (simp only: of_int_mult of_int_power of_int_numeral)
  then have q: "(of_int M :: rat) / 2 ^ j = of_int (m * 2 ^ (E - k - j))" by simp
  have "round_binary p E (of_int m / 2 ^ k) =
      sgn (of_int m / 2 ^ k) * (of_int (round_ties_even (of_int M / 2 ^ j)) * 2 ^ j / 2 ^ E)"
    by (simp only: round_binary_def Let_def y floor_of_int j_def)
  also have "sgn (of_int m / 2 ^ k :: rat) = 1" using mpos by (simp add: sgn_if)
  also have "round_ties_even (of_int M / 2 ^ j) = m * 2 ^ (E - k - j)"
    by (simp only: q round_ties_even_of_int)
  also have "of_int (m * 2 ^ (E - k - j)) * 2 ^ j = (of_int M :: rat)" by (simp only: Mq)
  also have "1 * ((of_int M :: rat) / 2 ^ E) = of_int m / 2 ^ k" by (simp add: M_def E2)
  finally show ?thesis .
qed

lemma Math_random_result_dyadic:
  assumes "0 \<le> m" and "m < 2 ^ k" and "k \<le> 53"
  shows "Math_random_result (of_int m / 2 ^ k)"
proof -
  from assms(3) have "(2::int) ^ k \<le> 2 ^ 53" by (simp only: power_increasing_iff one_less_numeral_iff semiring_norm)
  with assms(2) have "m < 2 ^ 53" by linarith
  with assms(1) have "round_binary 53 1074 (of_int m / 2 ^ k) = of_int m / 2 ^ k"
    using assms(3) by (intro round_binary_dyadic) simp_all
  moreover from assms(2) have "(of_int m :: rat) < of_int (2 ^ k)" by (simp only: of_int_less_iff)
  then have "(of_int m :: rat) / 2 ^ k < 1" by simp
  moreover from assms(1) have "(0::rat) \<le> of_int m / 2 ^ k" by simp
  ultimately show ?thesis by (simp add: Math_random_result_def is_double_def round_double_def)
qed

subsection \<open>The tree\<close>

text \<open>The loop body changes \<open>aria-selected\<close> and the classes of a node, nothing else.\<close>

lemma find_append_cases:
  "find P (xs @ ys) = (case find P xs of None \<Rightarrow> find P ys | Some x \<Rightarrow> Some x)"
  by (induction xs) simp_all

lemma getAttribute_deselect:
  "k \<noteq> ''aria-selected'' \<Longrightarrow> getAttribute (deselect n) k = getAttribute n k"
  by (cases n) (simp_all add: update_conv')

lemma has_role_deselect: "has_role r (deselect n) = has_role r n"
  by (simp add: has_role_def getAttribute_deselect)

lemma descendants_deselect: "descendants (deselect n) = descendants n"
  by (cases n) simp_all

lemma has_role_forEach_option: "has_role r (forEach_option n) = has_role r n"
  by (cases n) (simp_all add: has_role_def)

lemma has_role_in_first_listbox: "has_role r (in_first_listbox n) = has_role r n"
  by (cases n) (simp_all add: has_role_def)

lemma deselected_deselect: "has_role r n \<Longrightarrow> deselected (deselect n)"
  by (cases n) (simp_all add: deselected_def has_role_def update_conv')

text \<open>After the loop every descendant with the role \<open>option\<close> has been through the body.\<close>

lemma options_forEach_option:
  "d \<in> set (descendants (forEach_option n)) \<Longrightarrow> has_role ''option'' d \<Longrightarrow> deselected d"
proof (induction n arbitrary: d)
  case (Element attrs cls children)
  from Element.prems(1) obtain c where c: "c \<in> set children"
    and d: "d = (if has_role ''option'' c then deselect (forEach_option c) else forEach_option c)
          \<or> d \<in> set (descendants (if has_role ''option'' c then deselect (forEach_option c)
                                   else forEach_option c))"
    by auto
  from d show ?case
  proof
    assume eq: "d = (if has_role ''option'' c then deselect (forEach_option c) else forEach_option c)"
    show ?thesis
    proof (cases "has_role ''option'' c")
      case True
      then have "has_role ''option'' (forEach_option c)" by (simp add: has_role_forEach_option)
      then have "deselected (deselect (forEach_option c))" by (rule deselected_deselect)
      with eq True show ?thesis by simp
    next
      case False
      with eq have "d = forEach_option c" by simp
      with Element.prems(2) False show ?thesis by (simp add: has_role_forEach_option)
    qed
  next
    assume "d \<in> set (descendants (if has_role ''option'' c then deselect (forEach_option c)
                                   else forEach_option c))"
    then have "d \<in> set (descendants (forEach_option c))"
      by (simp add: descendants_deselect split: if_splits)
    with c show ?thesis using Element.prems(2) by (rule Element.IH)
  qed
next
  case (Text t)
  then show ?case by simp
qed

text \<open>
  The listbox that \<open>querySelector\<close> finds after the pass is the one it found before,
  with the loop run in it.
\<close>

lemma find_listbox_in_first_listbox:
  "find (has_role ''listbox'') (descendants (in_first_listbox n)) =
     map_option forEach_option (find (has_role ''listbox'') (descendants n))"
  and find_listbox_in_first_listbox_of:
  "find (has_role ''listbox'') (concat (map (\<lambda>c. c # descendants c) (in_first_listbox_of cs))) =
     map_option forEach_option
       (find (has_role ''listbox'') (concat (map (\<lambda>c. c # descendants c) cs)))"
proof (induction n and cs rule: in_first_listbox_in_first_listbox_of.induct)
  case (1 attrs cls children)
  then show ?case by simp
next
  case (2 t)
  then show ?case by simp
next
  case 3
  then show ?case by simp
next
  case (4 c cs)
  show ?case
  proof (cases "has_role ''listbox'' c")
    case True
    then show ?thesis by (simp add: has_role_forEach_option)
  next
    case notbox: False
    show ?thesis
    proof (cases "querySelector c ''listbox'' = None")
      case True
      with notbox 4 show ?thesis by (simp add: find_append_cases querySelector_def)
    next
      case False
      with notbox 4 show ?thesis
        by (auto simp add: find_append_cases querySelector_def has_role_in_first_listbox)
    qed
  qed
qed

lemma querySelector_after_pass:
  "removeFirstItemSelection (Some container) = Some container' \<Longrightarrow>
   querySelector container' ''listbox'' =
     map_option forEach_option (querySelector container ''listbox'')"
  by (auto simp add: removeFirstItemSelection_def querySelector_def find_listbox_in_first_listbox
      split: option.splits)

text \<open>The loop keeps the roles of all descendants, so it keeps the number of options.\<close>

lemma getAttribute_forEach_option: "getAttribute (forEach_option n) k = getAttribute n k"
  by (cases n) simp_all

lemma roles_forEach_option:
  "map (\<lambda>d. getAttribute d ''role'') (descendants (forEach_option n)) =
   map (\<lambda>d. getAttribute d ''role'') (descendants n)"
proof (induction n)
  case (Element attrs cls children)
  define g where
    "g = (\<lambda>c. if has_role ''option'' c then deselect (forEach_option c) else forEach_option c)"
  define role where "role = (\<lambda>d. getAttribute d ''role'')"
  have d: "descendants (g c) = descendants (forEach_option c)" for c
    by (simp add: g_def descendants_deselect)
  have r: "role (g c) = role c" for c
    by (simp add: g_def role_def getAttribute_deselect getAttribute_forEach_option)
  define h where "h = (\<lambda>c. map role (g c # descendants (g c)))"
  define h' where "h' = (\<lambda>c. map role (c # descendants c))"
  have "h c = h' c" if "c \<in> set children" for c
    using Element.IH [OF that] r [of c] by (simp add: h_def h'_def d role_def)
  then have eq: "map h children = map h' children"
    by (simp only: map_eq_conv) blast
  have "map role (descendants (forEach_option (Element attrs cls children))) =
      concat (map h children)"
    by (simp add: h_def g_def map_concat comp_def)
  also have "\<dots> = concat (map h' children)" by (simp only: eq)
  also have "\<dots> = map role (descendants (Element attrs cls children))"
    by (simp add: h'_def map_concat comp_def)
  finally show ?case by (simp only: role_def)
next
  case (Text t)
  then show ?case by simp
qed

lemma querySelectorAll_forEach_option_length:
  "length (querySelectorAll (forEach_option n) r) = length (querySelectorAll n r)"
proof -
  have "length (filter (has_role r) xs) =
      length (filter (\<lambda>y. y = Some r) (map (\<lambda>d. getAttribute d ''role'') xs))" for xs
    by (induction xs) (simp_all add: has_role_def)
  then show ?thesis by (simp only: querySelectorAll_def roles_forEach_option)
qed

text \<open>A batch in which a listbox is among the added nodes schedules a pass.\<close>

lemma observerCallback_listbox_added:
  assumes "m \<in> set mutations" and "mutation_type m = ''childList''"
    and "n \<in> set (addedNodes m)" and "has_role ''listbox'' n"
  shows "0 < observerCallback mutations"
proof -
  from assms(3,4) have "list_ex (has_role ''listbox'') (addedNodes m)"
    by (auto simp add: list_ex_iff)
  moreover from assms(3) have "0 < length (addedNodes m)" by (cases "addedNodes m") simp_all
  ultimately have "schedules_pass m" using assms(2) by (simp add: schedules_pass_def)
  with assms(1) have "m \<in> set (filter schedules_pass mutations)" by simp
  then show ?thesis unfolding observerCallback_def by (simp only: length_pos_if_in_set)
qed

text \<open>
  The pass: in the listbox that \<open>querySelector\<close> finds afterwards, every option has been
  through the loop body.
\<close>

lemma removeFirstItemSelection_deselects:
  assumes "removeFirstItemSelection (Some container) = Some container'"
    and "querySelector container' ''listbox'' = Some listbox"
    and "opt \<in> set (querySelectorAll listbox ''option'')"
  shows "deselected opt"
proof -
  from assms(1,2) obtain listbox0 where "listbox = forEach_option listbox0"
    by (auto simp add: querySelector_after_pass)
  with assms(3) have "opt \<in> set (descendants (forEach_option listbox0))"
    and "has_role ''option'' opt"
    by (simp_all add: querySelectorAll_def)
  then show ?thesis by (rule options_forEach_option)
qed

text \<open>Scheduled passes: the last one leaves the options of the listbox deselected.\<close>

lemma removeFirstItemSelection_Some: "\<exists>c'. removeFirstItemSelection (Some c) = Some c'"
  by (simp add: removeFirstItemSelection_def split: option.splits)

lemma run_scheduled_Some: "\<exists>c'. run_scheduled passes (Some c) = Some c'"
proof (induction passes)
  case 0
  then show ?case by (simp add: run_scheduled_def)
next
  case (Suc passes)
  then obtain c' where "run_scheduled passes (Some c) = Some c'" by blast
  with removeFirstItemSelection_Some [of c'] show ?case by (simp add: run_scheduled_def)
qed

lemma run_scheduled_deselects:
  assumes "0 < passes"
    and "run_scheduled passes (Some container) = Some container'"
    and "querySelector container' ''listbox'' = Some listbox"
    and "opt \<in> set (querySelectorAll listbox ''option'')"
  shows "deselected opt"
proof -
  from assms(1) obtain m where m: "passes = Suc m" by (cases passes) simp_all
  obtain c where c: "run_scheduled m (Some container) = Some c"
    using run_scheduled_Some by blast
  with assms(2) m have "removeFirstItemSelection (Some c) = Some container'"
    by (simp add: run_scheduled_def)
  then show ?thesis using assms(3,4) by (rule removeFirstItemSelection_deselects)
qed

text \<open>
  When the listbox itself is among the added nodes of a record of the batch, the options
  of the listbox that \<open>querySelector\<close> finds are deselected after the batch.
\<close>

lemma after_mutations_deselects:
  assumes "m \<in> set mutations" and "mutation_type m = ''childList''"
    and "n \<in> set (addedNodes m)" and "has_role ''listbox'' n"
    and "after_mutations mutations (Some container) = Some container'"
    and "querySelector container' ''listbox'' = Some listbox"
    and "opt \<in> set (querySelectorAll listbox ''option'')"
  shows "deselected opt"
proof -
  from assms(1-4) have "0 < observerCallback mutations" by (rule observerCallback_listbox_added)
  moreover from assms(5) have
    "run_scheduled (observerCallback mutations) (Some container) = Some container'"
    by (simp add: after_mutations_def)
  ultimately show ?thesis using assms(6,7) by (rule run_scheduled_deselects)
qed

text \<open>Without a scheduled pass the tree stays as the dropdown rendered it.\<close>

lemma after_mutations_unscheduled:
  "observerCallback mutations = 0 \<Longrightarrow> after_mutations mutations current = current"
  by (simp add: after_mutations_def run_scheduled_def)

section \<open>The claims\<close>

subsection \<open>Evaluating the primitives\<close>

lemma int_of_Safe: "\<bar>i\<bar> < 2 ^ 53 \<Longrightarrow> int_of (Safe i) = i"
  by (simp add: Safe_inverse)

lemma Safe_eq_iff: "\<bar>i\<bar> < 2 ^ 53 \<Longrightarrow> \<bar>j\<bar> < 2 ^ 53 \<Longrightarrow> (Safe i = Safe j) = (i = j)"
  by (simp add: Safe_inject)

lemma int_of_eq_0: "(int_of n = 0) = (n = Safe 0)"
proof
  assume "int_of n = 0"
  then have "Safe (int_of n) = Safe 0" by simp
  then show "n = Safe 0" by (simp only: int_of_inverse)
next
  assume "n = Safe 0"
  then show "int_of n = 0" by (simp add: int_of_Safe)
qed

lemma digits_not_empty: "digits n \<noteq> []"
  by (subst digits.simps) simp

lemma number_toString_not_empty: "number_toString n \<noteq> []"
  by (simp add: number_toString_def digits_not_empty)

lemma number_toString_examples:
  "number_toString (Safe 0) = ''0''" "number_toString (Safe 4) = ''4''"
  "number_toString (Safe 25) = ''25''"
  by (simp_all add: number_toString_def int_of_Safe digits.simps digit_char_def)

lemma length_catalog: "length [Safe 1, Safe 4, Safe 7] = 3"
  by simp

lemma nth_catalog: "[Safe 1, Safe 4, Safe 7] ! nat 1 = Safe 4"
  by simp

lemma random_half: "Math_random_result (1 / 2)"
  using Math_random_result_dyadic [of 1 1] by simp

lemma randomIndex_half_3: "randomIndex (1 / 2) 3 = 1"
proof -
  have "round_binary 53 1074 (of_int 3 / 2 ^ 1) = of_int 3 / 2 ^ 1"
    by (rule round_binary_dyadic) simp_all
  then have nt: "number_times (1 / 2) (of_nat 3) = 3 / 2"
    by (simp add: number_times_def round_double_def)
  show ?thesis unfolding randomIndex_def Math_floor_def nt by (simp add: floor_eq_iff)
qed

text \<open>
  What \<open>handleRandomPick\<close> does on a catalog that is not empty: the index is in range
  (\<open>randomIndex_in_range\<close>), so the drawn identifier is an element of the catalog, and
  the rest is the lookup in \<open>data\<close>.
\<close>

lemma handleRandomPick_drawn:
  assumes "Math_random_result rnd" and "0 < length ids" and "length ids < 2 ^ 32"
  shows "handleRandomPick props (Some ids) data rnd st =
     (case (case data of None \<Rightarrow> None
            | Some items \<Rightarrow> find (has_id (ids ! nat (randomIndex rnd (length ids)))) items) of
        Some pokemonItem \<Rightarrow>
          Inr (st\<lparr>search := name pokemonItem\<rparr>,
               optional_call (onChange props)
                 (OnChange (number_toString (ids ! nat (randomIndex rnd (length ids))))) @
               optional_call (onInputChange props) (OnInputChange (name pokemonItem)))
      | None \<Rightarrow>
          Inr (st, optional_call (onChange props)
                 (OnChange (number_toString (ids ! nat (randomIndex rnd (length ids)))))))"
proof -
  from assms(3) have "length ids < 2 ^ 53" by simp
  with assms(1,2) have "0 \<le> randomIndex rnd (length ids) \<and>
      randomIndex rnd (length ids) < int (length ids)"
    by (intro randomIndex_in_range)
  with assms(2) show ?thesis
    by (simp add: handleRandomPick_def Let_def split: option.splits)
qed

lemma handleRandomPick_selectedKey_unchanged:
  "handleRandomPick props PokemonIDs data rnd st = Inr (st', calls) \<Longrightarrow>
     selectedKey st' = selectedKey st \<and> localItems st' = localItems st"
  by (auto simp add: handleRandomPick_def Let_def split: option.splits if_splits)

lemma handleRandomPick_half:
  "handleRandomPick example_props (Some [Safe 1, Safe 4, Safe 7]) None (1 / 2) st =
     Inr (st, [OnChange ''4''])"
proof -
  have l: "0 < length [Safe 1, Safe 4, Safe 7]" "length [Safe 1, Safe 4, Safe 7] < 2 ^ 32"
    by simp_all
  have c: "optional_call (onChange example_props) (OnChange ''4'') = [OnChange ''4'']"
    by (simp add: optional_call_def example_props_def)
  show ?thesis
    using handleRandomPick_drawn [OF random_half l, of example_props None st]
    by (simp only: length_catalog randomIndex_half_3 nth_catalog number_toString_examples c
        option.case)
qed

subsection \<open>Random pick\<close>

text \<open>
  C1. The claim: a random pick on a catalog that is not empty sets the selected
  identifier of the widget to an identifier of the catalog and notifies \<open>onChange\<close> of
  it. The handler calls \<open>onChange\<close> with the drawn identifier, but it never calls
  \<open>setSelectedKey\<close>, which \<open>handleSelectionChange\<close> calls before it notifies: with the
  catalog \<open>[1, 4, 7]\<close>, nothing selected and the draw \<open>0.5\<close>, \<open>onChange\<close> is told \<open>4\<close>
  and \<open>selectedKey\<close> is still empty.
\<close>

theorem handleRandomPick_leaves_selectedKey:
  "handleRandomPick example_props (Some [Safe 1, Safe 4, Safe 7]) None (1 / 2) typed_state =
     Inr (typed_state, [OnChange ''4'']) \<and>
   selectedKey typed_state = []"
proof -
  have "selectedKey typed_state = []" by (simp add: typed_state_def)
  with handleRandomPick_half [of typed_state] show ?thesis by blast
qed

text \<open>
  C6. On an absent or empty catalog a random pick changes no state and notifies nobody.
\<close>

theorem handleRandomPick_empty_catalog:
  "handleRandomPick props None data rnd st = Inr (st, []) \<and>
   handleRandomPick props (Some []) data rnd st = Inr (st, [])"
  by (simp add: handleRandomPick_def)

text \<open>
  C7, as the claim states it: the name of the drawn identifier is resolved against the
  candidates, the snapshot \<open>localItems\<close> that \<open>handleSelectionChange\<close> resolves against,
  and the search text becomes the name of the record found there. The handler reads
  \<open>data\<close>, the result of the query for the current search text, behind the guard
  \<open>if (data)\<close>. While that query has not answered, \<open>data\<close> is undefined and the snapshot
  is the one of the query before: the draw 4 is the identifier of a record of the
  snapshot, and the search text stays \<open>pik\<close>, with no call of \<open>onInputChange\<close>.
\<close>

theorem handleRandomPick_snapshot_counterexample:
  "[Safe 1, Safe 4, Safe 7] ! nat (randomIndex (1 / 2) (length [Safe 1, Safe 4, Safe 7])) = Safe 4 \<and>
   find (has_id (Safe 4)) (localItems stale_state) = Some charmander \<and>
   handleRandomPick example_props (Some [Safe 1, Safe 4, Safe 7]) None (1 / 2) stale_state =
     Inr (stale_state, [OnChange ''4'']) \<and>
   search stale_state \<noteq> name charmander"
proof -
  have "[Safe 1, Safe 4, Safe 7] ! nat (randomIndex (1 / 2) (length [Safe 1, Safe 4, Safe 7])) =
      Safe 4"
    by (simp only: length_catalog randomIndex_half_3 nth_catalog)
  moreover have "find (has_id (Safe 4)) (localItems stale_state) = Some charmander"
    by (simp add: stale_state_def has_id_def charmander_def)
  moreover have "search stale_state \<noteq> name charmander"
    by (simp add: stale_state_def charmander_def)
  ultimately show ?thesis using handleRandomPick_half [of stale_state] by blast
qed

text \<open>
  C7, amended: the name of the drawn identifier is resolved against \<open>data\<close>, the result
  of the query for the current search text, not against the full catalog and not
  against the snapshot \<open>localItems\<close>. When \<open>data\<close> is defined and \<open>find\<close> returns a
  record of it, \<open>search\<close> becomes the name of the record and \<open>onInputChange\<close> (when
  supplied) is called with it after \<open>onChange\<close>; when \<open>data\<close> is undefined or holds no
  such record, the state is as before and \<open>onChange\<close> is the only call, whatever the
  snapshot holds. \<open>rnd\<close> is a value \<open>Math.random()\<close> may return, and the catalog has a
  length a JavaScript array can have.
\<close>

theorem handleRandomPick_name_from_data:
  assumes "Math_random_result rnd" and "0 < length ids" and "length ids < 2 ^ 32"
    and "drawn = ids ! nat (randomIndex rnd (length ids))"
  shows "drawn \<in> set ids \<and>
    handleRandomPick props (Some ids) data rnd st =
     (case (case data of None \<Rightarrow> None | Some items \<Rightarrow> find (has_id drawn) items) of
        Some pokemonItem \<Rightarrow>
          Inr (st\<lparr>search := name pokemonItem\<rparr>,
               optional_call (onChange props) (OnChange (number_toString drawn)) @
               optional_call (onInputChange props) (OnInputChange (name pokemonItem)))
      | None \<Rightarrow> Inr (st, optional_call (onChange props) (OnChange (number_toString drawn))))"
proof
  from assms(3) have "length ids < 2 ^ 53" by simp
  with assms(1,2) have "0 \<le> randomIndex rnd (length ids) \<and>
      randomIndex rnd (length ids) < int (length ids)"
    by (intro randomIndex_in_range)
  then have "nat (randomIndex rnd (length ids)) < length ids" by (simp add: nat_less_iff)
  then show "drawn \<in> set ids" unfolding assms(4) by (rule nth_mem)
next
  show "handleRandomPick props (Some ids) data rnd st =
     (case (case data of None \<Rightarrow> None | Some items \<Rightarrow> find (has_id drawn) items) of
        Some pokemonItem \<Rightarrow>
          Inr (st\<lparr>search := name pokemonItem\<rparr>,
               optional_call (onChange props) (OnChange (number_toString drawn)) @
               optional_call (onInputChange props) (OnInputChange (name pokemonItem)))
      | None \<Rightarrow> Inr (st, optional_call (onChange props) (OnChange (number_toString drawn))))"
    unfolding assms(4) using assms(1,2,3) by (rule handleRandomPick_drawn)
qed

theorem handleRandomPick_name_from_data_witness:
  "Math_random_result (1 / 2) \<and> 0 < length [Safe 1, Safe 4, Safe 7] \<and>
   length [Safe 1, Safe 4, Safe 7] < 2 ^ 32 \<and>
   [Safe 1, Safe 4, Safe 7] ! nat (randomIndex (1 / 2) (length [Safe 1, Safe 4, Safe 7])) = Safe 4 \<and>
   handleRandomPick example_props (Some [Safe 1, Safe 4, Safe 7]) (Some [pikachu, charmander])
       (1 / 2) typed_state =
     Inr (typed_state\<lparr>search := ''charmander''\<rparr>, [OnChange ''4'', OnInputChange ''charmander'']) \<and>
   handleRandomPick example_props (Some [Safe 1, Safe 4, Safe 7]) (Some [pikachu]) (1 / 2)
       stale_state =
     Inr (stale_state, [OnChange ''4''])"
proof -
  have d: "[Safe 1, Safe 4, Safe 7] !
      nat (randomIndex (1 / 2) (length [Safe 1, Safe 4, Safe 7])) = Safe 4"
    by (simp only: length_catalog randomIndex_half_3 nth_catalog)
  have l: "0 < length [Safe 1, Safe 4, Safe 7]" "length [Safe 1, Safe 4, Safe 7] < 2 ^ 32"
    by simp_all
  note t = handleRandomPick_name_from_data [OF random_half l d [symmetric]]
  from t [of example_props "Some [pikachu, charmander]" typed_state]
  have a: "handleRandomPick example_props (Some [Safe 1, Safe 4, Safe 7])
      (Some [pikachu, charmander]) (1 / 2) typed_state =
     Inr (typed_state\<lparr>search := ''charmander''\<rparr>, [OnChange ''4'', OnInputChange ''charmander''])"
    by (simp add: has_id_def pikachu_def charmander_def optional_call_def example_props_def
        number_toString_examples Safe_eq_iff)
  from t [of example_props "Some [pikachu]" stale_state]
  have b: "handleRandomPick example_props (Some [Safe 1, Safe 4, Safe 7]) (Some [pikachu]) (1 / 2)
      stale_state = Inr (stale_state, [OnChange ''4''])"
    by (simp add: has_id_def pikachu_def optional_call_def example_props_def
        number_toString_examples Safe_eq_iff)
  from random_half l d a b show ?thesis by blast
qed

text \<open>
  C10. For a value \<open>rnd\<close> that \<open>Math.random()\<close> may return and a catalog that is not
  empty (of a length a JavaScript array can have), the index
  \<open>Math.floor(Math.random() * PokemonIDs.length)\<close> is at least 0 and below the length,
  so \<open>PokemonIDs[randomIndex]\<close> is an element of the array and the handler does not
  fail on \<open>undefined\<close>.
\<close>

theorem randomIndex_within_bounds:
  assumes "Math_random_result rnd" and "0 < length ids" and "length ids < 2 ^ 32"
  shows "0 \<le> randomIndex rnd (length ids) \<and> randomIndex rnd (length ids) < int (length ids) \<and>
    handleRandomPick props (Some ids) data rnd st \<noteq> Inl TypeError"
proof -
  from assms(3) have "length ids < 2 ^ 53" by simp
  with assms(1,2) have r: "0 \<le> randomIndex rnd (length ids) \<and>
      randomIndex rnd (length ids) < int (length ids)"
    by (intro randomIndex_in_range)
  with assms(2) have "handleRandomPick props (Some ids) data rnd st \<noteq> Inl TypeError"
    by (simp add: handleRandomPick_def Let_def split: option.splits)
  with r show ?thesis by simp
qed

theorem randomIndex_within_bounds_witness:
  "Math_random_result (1 / 2) \<and> 0 < length [Safe 1, Safe 4, Safe 7] \<and>
   length [Safe 1, Safe 4, Safe 7] < 2 ^ 32 \<and>
   0 \<le> randomIndex (1 / 2) (length [Safe 1, Safe 4, Safe 7]) \<and>
   randomIndex (1 / 2) (length [Safe 1, Safe 4, Safe 7]) < int (length [Safe 1, Safe 4, Safe 7]) \<and>
   handleRandomPick example_props (Some [Safe 1, Safe 4, Safe 7]) None (1 / 2) typed_state \<noteq>
     Inl TypeError"
proof -
  have l: "0 < length [Safe 1, Safe 4, Safe 7]" "length [Safe 1, Safe 4, Safe 7] < 2 ^ 32"
    by simp_all
  from randomIndex_within_bounds [OF random_half l, of example_props None typed_state]
    random_half l
  show ?thesis by blast
qed

subsection \<open>Selection from the list\<close>

text \<open>
  C2. For every call with a key that is not null and for whose string form \<open>find\<close>
  returns a record of the snapshot \<open>localItems\<close>, afterwards \<open>selectedKey\<close> is that
  string and \<open>search\<close> is the name of the record, the snapshot is as before, and
  \<open>onChange\<close> and then \<open>onInputChange\<close> (each when supplied) have been called with the
  identifier and the name. The key is any string or any number but 0: the keys of the
  items are their React keys (\<open>key={item.pokemon_species_id}\<close>), which the dropdown hands
  over as strings, and a string that \<open>find\<close> matches is not empty. The number 0 is with
  the null and empty keys of C4.
\<close>

theorem handleSelectionChange_found:
  assumes "k \<noteq> KeyNumber (Safe 0)"
    and "find (matches_key (key_toString k)) (localItems st) = Some selectedPokemon"
  shows "handleSelectionChange props st (Some k) =
     (st\<lparr>search := name selectedPokemon, selectedKey := key_toString k\<rparr>,
      optional_call (onChange props) (OnChange (key_toString k)) @
      optional_call (onInputChange props) (OnInputChange (name selectedPokemon)))"
proof -
  have "truthy (Some k)"
  proof (cases k)
    case (KeyString s)
    with assms(2) have "matches_key s selectedPokemon" by (auto simp add: find_Some_iff)
    then have "s \<noteq> []" by (auto simp add: matches_key_def number_toString_not_empty)
    with KeyString show ?thesis by simp
  next
    case (KeyNumber n)
    with assms(1) show ?thesis by (simp add: int_of_eq_0)
  qed
  with assms(2) show ?thesis by (simp add: handleSelectionChange_def Let_def)
qed

theorem handleSelectionChange_found_witness:
  "KeyString ''25'' \<noteq> KeyNumber (Safe 0) \<and>
   find (matches_key (key_toString (KeyString ''25''))) (localItems typed_state) = Some pikachu \<and>
   handleSelectionChange example_props typed_state (Some (KeyString ''25'')) =
     (\<lparr>search = ''pikachu'', selectedKey = ''25'', localItems = [pikachu]\<rparr>,
      [OnChange ''25'', OnInputChange ''pikachu''])"
proof -
  have t: "KeyString ''25'' \<noteq> KeyNumber (Safe 0)" by simp
  have f: "find (matches_key (key_toString (KeyString ''25''))) (localItems typed_state) =
      Some pikachu"
    by (simp add: typed_state_def matches_key_def pikachu_def number_toString_examples)
  from handleSelectionChange_found [OF t f, of example_props]
  have "handleSelectionChange example_props typed_state (Some (KeyString ''25'')) =
     (\<lparr>search = ''pikachu'', selectedKey = ''25'', localItems = [pikachu]\<rparr>,
      [OnChange ''25'', OnInputChange ''pikachu''])"
    by (simp add: typed_state_def pikachu_def optional_call_def example_props_def)
  with t f show ?thesis by blast
qed

text \<open>
  C3. For every call with a key that is not null (nor the empty string or the number 0,
  the keys of C4) for whose string form \<open>find\<close> returns no record of the snapshot,
  \<open>selectedKey\<close> becomes that string, \<open>search\<close> and the snapshot are as before, and
  \<open>onChange\<close> (when supplied) is the only callback called: \<open>onInputChange\<close> is not.
\<close>

theorem handleSelectionChange_not_found:
  assumes "k \<noteq> KeyString []" and "k \<noteq> KeyNumber (Safe 0)"
    and "find (matches_key (key_toString k)) (localItems st) = None"
  shows "handleSelectionChange props st (Some k) =
     (st\<lparr>selectedKey := key_toString k\<rparr>,
      optional_call (onChange props) (OnChange (key_toString k))) \<and>
    search (fst (handleSelectionChange props st (Some k))) = search st \<and>
    OnInputChange text \<notin> set (snd (handleSelectionChange props st (Some k)))"
proof -
  from assms(1,2) have "truthy (Some k)" by (cases k) (simp_all add: int_of_eq_0)
  with assms(3) show ?thesis by (simp add: handleSelectionChange_def Let_def optional_call_def)
qed

theorem handleSelectionChange_not_found_witness:
  "KeyString ''4'' \<noteq> KeyString [] \<and> KeyString ''4'' \<noteq> KeyNumber (Safe 0) \<and>
   find (matches_key (key_toString (KeyString ''4''))) (localItems typed_state) = None \<and>
   handleSelectionChange example_props typed_state (Some (KeyString ''4'')) =
     (\<lparr>search = ''pik'', selectedKey = ''4'', localItems = [pikachu]\<rparr>, [OnChange ''4'']) \<and>
   OnInputChange ''charmander'' \<notin>
     set (snd (handleSelectionChange example_props typed_state (Some (KeyString ''4''))))"
proof -
  have t: "KeyString ''4'' \<noteq> KeyString []" "KeyString ''4'' \<noteq> KeyNumber (Safe 0)"
    by simp_all
  have f: "find (matches_key (key_toString (KeyString ''4''))) (localItems typed_state) = None"
    by (simp add: typed_state_def matches_key_def pikachu_def number_toString_examples)
  note r = handleSelectionChange_not_found [OF t f, of example_props "''charmander''"]
  from r have "handleSelectionChange example_props typed_state (Some (KeyString ''4'')) =
     (\<lparr>search = ''pik'', selectedKey = ''4'', localItems = [pikachu]\<rparr>, [OnChange ''4''])"
    by (simp add: typed_state_def optional_call_def example_props_def)
  moreover from r have "OnInputChange ''charmander'' \<notin>
     set (snd (handleSelectionChange example_props typed_state (Some (KeyString ''4''))))"
    by blast
  ultimately show ?thesis using t f by blast
qed

text \<open>
  C4. A call with null or with the empty string (or with the number 0) returns the state
  as it was, snapshot included, and calls no callback.
\<close>

theorem handleSelectionChange_null_or_empty:
  "handleSelectionChange props st None = (st, []) \<and>
   handleSelectionChange props st (Some (KeyString [])) = (st, []) \<and>
   handleSelectionChange props st (Some (KeyNumber (Safe 0))) = (st, [])"
  by (simp add: handleSelectionChange_def int_of_Safe)

subsection \<open>Reset and controlled props\<close>

text \<open>
  C5. From every state \<open>resetSearchBar\<close> leaves the search text and the selected
  identifier empty, and it calls neither \<open>onChange\<close> nor \<open>onInputChange\<close>.
\<close>

theorem resetSearchBar_clears:
  "search (fst (resetSearchBar st)) = [] \<and> selectedKey (fst (resetSearchBar st)) = [] \<and>
   localItems (fst (resetSearchBar st)) = localItems st \<and> snd (resetSearchBar st) = []"
  by (simp add: resetSearchBar_def)

text \<open>
  C8. Each of the two props is reconciled on its own. The effect of \<open>value\<close> writes the
  prop (the empty string when it is absent) into \<open>selectedKey\<close> and leaves \<open>search\<close>;
  the effect of \<open>inputValue\<close> writes the prop into \<open>search\<close> and leaves \<open>selectedKey\<close>.
  In a commit \<open>selectedKey\<close> changes exactly when \<open>value\<close> differs from the previous
  render, and \<open>search\<close> exactly when \<open>inputValue\<close> does.
\<close>

theorem commitEffects_props_independent:
  "selectedKey (effect_value props st) = (case value_prop props of Some v \<Rightarrow> v | None \<Rightarrow> []) \<and>
   search (effect_value props st) = search st \<and>
   search (effect_inputValue props st) = (case inputValue props of Some v \<Rightarrow> v | None \<Rightarrow> []) \<and>
   selectedKey (effect_inputValue props st) = selectedKey st \<and>
   selectedKey (commitEffects prev cur st) =
     (if value_prop (fst cur) = value_prop (fst prev) then selectedKey st
      else (case value_prop (fst cur) of Some v \<Rightarrow> v | None \<Rightarrow> [])) \<and>
   search (commitEffects prev cur st) =
     (if inputValue (fst cur) = inputValue (fst prev) then search st
      else (case inputValue (fst cur) of Some v \<Rightarrow> v | None \<Rightarrow> []))"
  by (simp add: commitEffects_def effect_value_def effect_inputValue_def effect_data_def
      or_empty_def Let_def split: option.splits)

lemma commitEffects_examples:
  "commitEffects (example_props, None) (example_props\<lparr>value_prop := Some ''25''\<rparr>, None) typed_state =
     typed_state\<lparr>selectedKey := ''25''\<rparr>"
  "commitEffects (example_props, None) (example_props\<lparr>inputValue := Some ''pika''\<rparr>, None)
     typed_state = typed_state\<lparr>search := ''pika''\<rparr>"
  by (simp_all add: commitEffects_def effect_value_def effect_inputValue_def or_empty_def
      example_props_def)

subsection \<open>The highlight correction\<close>

text \<open>
  C9. The claim: after the dropdown list opens, the correction pass has set
  \<open>aria-selected\<close> to \<open>false\<close> on every option under the listbox and removed the class
  \<open>selected\<close>, so that no option remains marked as selected; the comments of the source
  say the same (the highlight is removed when the dropdown opens, the observer watches
  for the dropdown being added). The pass does that when it runs, and it is scheduled
  when the listbox itself is an added node of a record (\<open>after_mutations_deselects\<close>).
  But the callback looks at the added nodes alone, not at what is inside them: when the
  listbox comes inside a wrapper element, the record names the wrapper, no pass is
  scheduled, and the first option is still marked as selected.
\<close>

theorem after_mutations_wrapped_listbox:
  "observerCallback [popover_added] = 0 \<and>
   after_mutations [popover_added] (Some wrapped_container) = Some wrapped_container \<and>
   querySelector wrapped_container ''listbox'' = Some open_listbox \<and>
   selected_option \<in> set (querySelectorAll open_listbox ''option'') \<and>
   getAttribute selected_option ''aria-selected'' = Some ''true'' \<and>
   ''selected'' \<in> set (classList selected_option) \<and>
   observerCallback [listbox_added] = 1 \<and>
   after_mutations [listbox_added] (Some example_container) =
     Some (Element [] [''flex-1'']
       [Element [(''role'', ''combobox'')] [] [],
        Element [(''role'', ''listbox'')] []
          [Element [(''role'', ''option''), (''aria-selected'', ''false'')] [] [Text ''bulbasaur''],
           Element [(''role'', ''option''), (''aria-selected'', ''false'')] [] [Text ''ivysaur'']]])"
proof -
  have n: "observerCallback [popover_added] = 0"
    by (simp add: observerCallback_def schedules_pass_def popover_added_def popover_def
        has_role_def)
  then have "after_mutations [popover_added] (Some wrapped_container) = Some wrapped_container"
    by (rule after_mutations_unscheduled)
  moreover have "querySelector wrapped_container ''listbox'' = Some open_listbox"
    by (simp add: querySelector_def wrapped_container_def popover_def open_listbox_def
        selected_option_def has_role_def)
  moreover have "selected_option \<in> set (querySelectorAll open_listbox ''option'')"
    by (simp add: querySelectorAll_def open_listbox_def selected_option_def has_role_def)
  moreover have "getAttribute selected_option ''aria-selected'' = Some ''true''"
    "''selected'' \<in> set (classList selected_option)"
    by (simp_all add: selected_option_def)
  moreover have s: "observerCallback [listbox_added] = 1"
    by (simp add: observerCallback_def schedules_pass_def listbox_added_def open_listbox_def
        has_role_def)
  moreover have "after_mutations [listbox_added] (Some example_container) =
     Some (Element [] [''flex-1'']
       [Element [(''role'', ''combobox'')] [] [],
        Element [(''role'', ''listbox'')] []
          [Element [(''role'', ''option''), (''aria-selected'', ''false'')] [] [Text ''bulbasaur''],
           Element [(''role'', ''option''), (''aria-selected'', ''false'')] [] [Text ''ivysaur'']]])"
    by (simp add: after_mutations_def run_scheduled_def s removeFirstItemSelection_def
        example_container_def open_listbox_def selected_option_def querySelector_def
        has_role_def)
  ultimately show ?thesis using n by blast
qed

end
